theory Spec2Isabelle
  imports Main "HOL-Library.Word" "HOL-Library.Monad_Syntax"
begin

section \<open>Scalar types and enumerations (types.hpp)\<close>

text \<open>
  \<^verbatim>\<open>price_t\<close> and \<^verbatim>\<open>timestamp_t\<close> are \<^verbatim>\<open>std::int64_t\<close>, \<^verbatim>\<open>size_t\<close> is
  \<^verbatim>\<open>std::uint32_t\<close>, \<^verbatim>\<open>order_id_t\<close> and \<^verbatim>\<open>sequence_t\<close> are \<^verbatim>\<open>std::uint64_t\<close>.
  All of them are machine words here; a signed 64-bit value is a \<open>64 word\<close> read with
  \<open>sint\<close>, the unsigned ones are read with \<open>unat\<close> (the order \<open>\<le>\<close> on words is the
  unsigned one).
\<close>

type_synonym timestamp_t = "64 word"
type_synonym price_t = "64 word"
type_synonym size_t = "32 word"
type_synonym order_id_t = "64 word"
type_synonym sequence_t = "64 word"
type_synonym instrument_id_t = "32 word"
type_synonym publisher_id_t = "16 word"

definition MAX_DEPTH :: nat where
  "MAX_DEPTH = 10"

text \<open>
  \<^verbatim>\<open>enum class Action : char\<close> gives \<^verbatim>\<open>REPLACE\<close> and \<^verbatim>\<open>CLEAR\<close> the same value
  \<^verbatim>\<open>'R'\<close>: they are one enumerator under two names.
\<close>

datatype Action = ADD | CANCEL | TRADE | FILL | CLEAR

abbreviation REPLACE :: Action where
  "REPLACE \<equiv> CLEAR"

datatype Side = BID | ASK | NEUTRAL

text \<open>\<^verbatim>\<open>enum class RecordType : std::uint16_t\<close>: the parser casts any 16-bit value to
  it, so it is the underlying type with the two named values.\<close>

type_synonym RecordType = "16 word"

definition MBO :: RecordType where
  "MBO = 160"

definition MBP :: RecordType where
  "MBP = 10"

record Timestamp =
  ts_recv :: timestamp_t
  ts_event :: timestamp_t

record MBORecord =
  mbo_timestamp :: Timestamp
  mbo_rtype :: RecordType
  mbo_publisher_id :: publisher_id_t
  mbo_instrument_id :: instrument_id_t
  mbo_action :: Action
  mbo_side :: Side
  mbo_price :: price_t
  mbo_size :: size_t
  mbo_channel_id :: "16 word"
  mbo_order_id :: order_id_t
  mbo_flags :: "32 word"
  mbo_ts_in_delta :: "32 word"
  mbo_sequence :: sequence_t
  mbo_symbol :: string

text \<open>\<^verbatim>\<open>struct PriceLevel\<close>; its default constructor is the all-zero slot.\<close>

record PriceLevel =
  pl_price :: price_t
  pl_size :: size_t
  pl_count :: "32 word"

definition PriceLevel_default :: PriceLevel where
  "PriceLevel_default = \<lparr>pl_price = 0, pl_size = 0, pl_count = 0\<rparr>"

record MBPRecord =
  mbp_timestamp :: Timestamp
  mbp_rtype :: RecordType
  mbp_publisher_id :: publisher_id_t
  mbp_instrument_id :: instrument_id_t
  mbp_action :: Action
  mbp_side :: Side
  mbp_depth :: "8 word"
  mbp_price :: price_t
  mbp_size :: size_t
  mbp_flags :: "32 word"
  mbp_ts_in_delta :: "32 word"
  mbp_sequence :: sequence_t
  bid_levels :: "PriceLevel list"
  ask_levels :: "PriceLevel list"
  mbp_symbol :: string
  mbp_order_id :: order_id_t

section \<open>The side book (orderbook.hpp, orderbook.cpp)\<close>

text \<open>
  \<^verbatim>\<open>struct OrderbookPriceLevel\<close>: the level's own price, the aggregated size, the order
  count and the \<^verbatim>\<open>unordered_map\<close> of member orders.
\<close>

record OrderbookPriceLevel =
  lvl_price :: price_t
  total_size :: size_t
  order_count :: "32 word"
  orders :: "order_id_t \<rightharpoonup> size_t"

definition OrderbookPriceLevel_default :: OrderbookPriceLevel where
  "OrderbookPriceLevel_default =
     \<lparr>lvl_price = 0, total_size = 0, order_count = 0, orders = Map.empty\<rparr>"

text \<open>
  \<^verbatim>\<open>std::map<price_t, OrderbookPriceLevel, std::greater<price_t>>\<close> is an ordered
  container: it is modelled by the list of its (key, value) pairs in iteration order.
  \<^verbatim>\<open>std::greater<price_t>\<close> compares the signed values. The class \<^verbatim>\<open>OrderbookSide\<close>
  has this one declaration of \<^verbatim>\<open>levels_\<close>; the \<^verbatim>\<open>std::less\<close> variant is commented out
  in the header, and \<^verbatim>\<open>Orderbook\<close> instantiates the same class for both sides.
\<close>

definition price_greater :: "price_t \<Rightarrow> price_t \<Rightarrow> bool" where
  "price_greater a b = (sint b < sint a)"

type_synonym level_map = "(price_t \<times> OrderbookPriceLevel) list"

fun map_find :: "price_t \<Rightarrow> level_map \<Rightarrow> OrderbookPriceLevel option" where
  "map_find k [] = None"
| "map_find k ((k', v) # rest) = (if k = k' then Some v else map_find k rest)"

text \<open>Storing a value under a key: replace it in place, or insert it before the first
  key that the comparator puts after it.\<close>

fun map_store :: "price_t \<Rightarrow> OrderbookPriceLevel \<Rightarrow> level_map \<Rightarrow> level_map" where
  "map_store k v [] = [(k, v)]"
| "map_store k v ((k', v') # rest) =
     (if k = k' then (k, v) # rest
      else if price_greater k k' then (k, v) # (k', v') # rest
      else (k', v') # map_store k v rest)"

fun map_erase :: "price_t \<Rightarrow> level_map \<Rightarrow> level_map" where
  "map_erase k [] = []"
| "map_erase k ((k', v') # rest) = (if k = k' then rest else (k', v') # map_erase k rest)"

text \<open>The members \<^verbatim>\<open>levels_\<close> and \<^verbatim>\<open>order_lookup_\<close> (and those of \<^verbatim>\<open>Orderbook\<close>
  below) are named without the trailing underscore, which an Isabelle name cannot end
  with.\<close>

record OrderbookSide =
  levels :: level_map
  order_lookup :: "order_id_t \<rightharpoonup> (price_t \<times> size_t)"

definition OrderbookSide_init :: OrderbookSide where
  "OrderbookSide_init = \<lparr>levels = [], order_lookup = Map.empty\<rparr>"

definition remove_level_if_empty :: "price_t \<Rightarrow> OrderbookSide \<Rightarrow> OrderbookSide" where
  "remove_level_if_empty price s =
     (case map_find price (levels s) of
        Some lv \<Rightarrow> (if total_size lv = 0 then s\<lparr>levels := map_erase price (levels s)\<rparr> else s)
      | None \<Rightarrow> s)"

text \<open>
  \<^verbatim>\<open>update_level\<close>. \<^verbatim>\<open>levels_[price]\<close> value-initialises a missing level and
  yields a reference to the stored one; the changed level is written back under its key
  before \<^verbatim>\<open>remove_level_if_empty\<close> runs. All arithmetic is 32-bit and wraps;
  \<^verbatim>\<open>std::min\<close> compares unsigned. On the cancel path the member is erased from
  \<^verbatim>\<open>level.orders\<close> whatever the size.
\<close>

definition update_level :: "price_t \<Rightarrow> order_id_t \<Rightarrow> size_t \<Rightarrow> bool \<Rightarrow> OrderbookSide \<Rightarrow> OrderbookSide" where
  "update_level price order_id sz is_add s =
     (let level0 = (case map_find price (levels s) of
                      Some lv \<Rightarrow> lv
                    | None \<Rightarrow> OrderbookPriceLevel_default);
          level = level0\<lparr>lvl_price := price\<rparr>;
          level' =
            (if is_add
             then level\<lparr>total_size := total_size level + sz,
                        order_count := order_count level + 1,
                        orders := (orders level)(order_id \<mapsto> sz)\<rparr>
             else (case orders level order_id of
                     None \<Rightarrow> level
                   | Some order_size \<Rightarrow>
                       (let ts = total_size level - min order_size sz
                        in level\<lparr>total_size := ts,
                                 orders := (orders level)(order_id := None),
                                 order_count := (if ts = 0 then 0 else order_count level - 1)\<rparr>)))
      in remove_level_if_empty price (s\<lparr>levels := map_store price level' (levels s)\<rparr>))"

definition update_order_lookup :: "order_id_t \<Rightarrow> price_t \<Rightarrow> size_t \<Rightarrow> bool \<Rightarrow> OrderbookSide \<Rightarrow> OrderbookSide" where
  "update_order_lookup order_id price sz is_add s =
     (if is_add then s\<lparr>order_lookup := (order_lookup s)(order_id \<mapsto> (price, sz))\<rparr>
      else (case order_lookup s order_id of
              None \<Rightarrow> s
            | Some (order_price, order_size) \<Rightarrow>
                (if sz \<ge> order_size then s\<lparr>order_lookup := (order_lookup s)(order_id := None)\<rparr>
                 else s\<lparr>order_lookup := (order_lookup s)(order_id \<mapsto> (order_price, order_size - sz))\<rparr>)))"

definition add_order :: "order_id_t \<Rightarrow> price_t \<Rightarrow> size_t \<Rightarrow> OrderbookSide \<Rightarrow> OrderbookSide" where
  "add_order order_id price sz s =
     update_order_lookup order_id price sz True (update_level price order_id sz True s)"

definition cancel_order :: "order_id_t \<Rightarrow> price_t \<Rightarrow> size_t \<Rightarrow> OrderbookSide \<Rightarrow> OrderbookSide" where
  "cancel_order order_id price sz s =
     update_order_lookup order_id price sz False (update_level price order_id sz False s)"

text \<open>\<^verbatim>\<open>trade_order\<close> ignores its price argument and uses the indexed price.\<close>

definition trade_order :: "order_id_t \<Rightarrow> price_t \<Rightarrow> size_t \<Rightarrow> OrderbookSide \<Rightarrow> OrderbookSide" where
  "trade_order order_id price sz s =
     (case order_lookup s order_id of
        None \<Rightarrow> s
      | Some (order_price, order_size) \<Rightarrow>
          (if sz \<ge> order_size
           then update_order_lookup order_id order_price order_size False
                  (update_level order_price order_id order_size False s)
           else update_order_lookup order_id order_price sz False
                  (update_level order_price order_id sz False s)))"

text \<open>
  \<^verbatim>\<open>get_top_levels\<close>: the result array starts as ten default slots; the loop over
  \<^verbatim>\<open>levels_\<close> in iteration order overwrites slot \<open>index\<close> and stops at \<^verbatim>\<open>MAX_DEPTH\<close>.
\<close>

fun fill_levels :: "nat \<Rightarrow> level_map \<Rightarrow> PriceLevel list \<Rightarrow> PriceLevel list" where
  "fill_levels index [] result = result"
| "fill_levels index ((price, level) # rest) result =
     (if index \<ge> MAX_DEPTH then result
      else fill_levels (index + 1) rest
             (result[index := \<lparr>pl_price = price, pl_size = total_size level,
                               pl_count = order_count level\<rparr>]))"

definition get_top_levels :: "OrderbookSide \<Rightarrow> PriceLevel list" where
  "get_top_levels s = fill_levels 0 (levels s) (replicate MAX_DEPTH PriceLevel_default)"

definition has_order :: "OrderbookSide \<Rightarrow> order_id_t \<Rightarrow> bool" where
  "has_order s order_id = (order_lookup s order_id \<noteq> None)"

definition get_order_size :: "OrderbookSide \<Rightarrow> order_id_t \<Rightarrow> size_t" where
  "get_order_size s order_id = (case order_lookup s order_id of Some (p, sz) \<Rightarrow> sz | None \<Rightarrow> 0)"

section \<open>The book (orderbook.cpp)\<close>

record TradeSequence =
  seq_order_id :: order_id_t
  seq_side :: Side
  seq_price :: price_t
  remaining_size :: size_t
  seq_timestamp :: timestamp_t

text \<open>
  \<^verbatim>\<open>PerformanceStats\<close>: the four counters (\<^verbatim>\<open>std::size_t\<close>). The two durations are
  wall-clock measurements and are left out.
\<close>

record PerformanceStats =
  records_processed :: "64 word"
  trades_processed :: "64 word"
  orders_added :: "64 word"
  orders_cancelled :: "64 word"

record Orderbook =
  bid_side :: OrderbookSide
  ask_side :: OrderbookSide
  pending_trades :: "order_id_t \<rightharpoonup> TradeSequence"
  stats :: PerformanceStats

definition Orderbook_init :: Orderbook where
  "Orderbook_init =
     \<lparr>bid_side = OrderbookSide_init, ask_side = OrderbookSide_init,
      pending_trades = Map.empty,
      stats = \<lparr>records_processed = 0, trades_processed = 0, orders_added = 0,
                orders_cancelled = 0\<rparr>\<rparr>"

definition handle_add_order :: "MBORecord \<Rightarrow> Orderbook \<Rightarrow> Orderbook" where
  "handle_add_order r b =
     (if mbo_side r = BID
      then b\<lparr>bid_side := add_order (mbo_order_id r) (mbo_price r) (mbo_size r) (bid_side b)\<rparr>
      else if mbo_side r = ASK
      then b\<lparr>ask_side := add_order (mbo_order_id r) (mbo_price r) (mbo_size r) (ask_side b)\<rparr>
      else b)"

definition handle_cancel_order :: "MBORecord \<Rightarrow> Orderbook \<Rightarrow> Orderbook" where
  "handle_cancel_order r b =
     (if mbo_side r = BID
      then b\<lparr>bid_side := cancel_order (mbo_order_id r) (mbo_price r) (mbo_size r) (bid_side b)\<rparr>
      else if mbo_side r = ASK
      then b\<lparr>ask_side := cancel_order (mbo_order_id r) (mbo_price r) (mbo_size r) (ask_side b)\<rparr>
      else b)"

definition handle_trade_sequence :: "MBORecord \<Rightarrow> Orderbook \<Rightarrow> Orderbook" where
  "handle_trade_sequence r b =
     (if mbo_action r = TRADE
      then b\<lparr>pending_trades := (pending_trades b)(mbo_order_id r \<mapsto>
               \<lparr>seq_order_id = mbo_order_id r, seq_side = mbo_side r, seq_price = mbo_price r,
                remaining_size = mbo_size r, seq_timestamp = ts_event (mbo_timestamp r)\<rparr>)\<rparr>
      else if mbo_action r = FILL
      then (case pending_trades b (mbo_order_id r) of
              None \<Rightarrow> b
            | Some seq \<Rightarrow> b\<lparr>pending_trades := (pending_trades b)(mbo_order_id r \<mapsto>
                              seq\<lparr>remaining_size := remaining_size seq - mbo_size r\<rparr>)\<rparr>)
      else if mbo_action r = CANCEL
      then (case pending_trades b (mbo_order_id r) of
              None \<Rightarrow> b
            | Some seq \<Rightarrow>
                (let opposite_side = (if seq_side seq = BID then ASK else BID);
                     b' = (if opposite_side = BID
                           then b\<lparr>bid_side := trade_order (mbo_order_id r) (seq_price seq)
                                                  (remaining_size seq) (bid_side b)\<rparr>
                           else b\<lparr>ask_side := trade_order (mbo_order_id r) (seq_price seq)
                                                  (remaining_size seq) (ask_side b)\<rparr>)
                 in b'\<lparr>pending_trades := (pending_trades b')(mbo_order_id r := None)\<rparr>))
      else b)"

definition update_stats :: "MBORecord \<Rightarrow> Orderbook \<Rightarrow> Orderbook" where
  "update_stats r b =
     (let st = (stats b)\<lparr>records_processed := records_processed (stats b) + 1\<rparr>;
          st' = (if mbo_action r = TRADE then st\<lparr>trades_processed := trades_processed st + 1\<rparr>
                 else if mbo_action r = ADD then st\<lparr>orders_added := orders_added st + 1\<rparr>
                 else if mbo_action r = CANCEL then st\<lparr>orders_cancelled := orders_cancelled st + 1\<rparr>
                 else st)
      in b\<lparr>stats := st'\<rparr>)"

text \<open>
  \<^verbatim>\<open>process_mbo_record\<close>: the switch sends \<^verbatim>\<open>CANCEL\<close> to \<^verbatim>\<open>handle_cancel_order\<close> and
  only \<^verbatim>\<open>TRADE\<close> and \<^verbatim>\<open>FILL\<close> to \<^verbatim>\<open>handle_trade_sequence\<close>.
\<close>

definition process_mbo_record :: "Orderbook \<Rightarrow> MBORecord \<Rightarrow> Orderbook" where
  "process_mbo_record b r =
     (if mbo_action r = CLEAR \<and> mbo_sequence r = 0 then b
      else update_stats r
             (case mbo_action r of
                ADD \<Rightarrow> handle_add_order r b
              | CANCEL \<Rightarrow> handle_cancel_order r b
              | TRADE \<Rightarrow> handle_trade_sequence r b
              | FILL \<Rightarrow> handle_trade_sequence r b
              | CLEAR \<Rightarrow> b))"

text \<open>
  \<^verbatim>\<open>generate_mbp_record\<close> is a \<^verbatim>\<open>const\<close> member function; it is written in the
  same state-passing style as the mutating operations, returning the record together with
  the book it leaves behind, so that its effect on the book can be stated.
\<close>

definition generate_mbp_record :: "Orderbook \<Rightarrow> MBORecord \<Rightarrow> MBPRecord \<times> Orderbook" where
  "generate_mbp_record b r =
     (\<lparr>mbp_timestamp = mbo_timestamp r,
       mbp_rtype = MBP,
       mbp_publisher_id = mbo_publisher_id r,
       mbp_instrument_id = mbo_instrument_id r,
       mbp_action = mbo_action r,
       mbp_side = mbo_side r,
       mbp_depth = 0,
       mbp_price = mbo_price r,
       mbp_size = mbo_size r,
       mbp_flags = mbo_flags r,
       mbp_ts_in_delta = mbo_ts_in_delta r,
       mbp_sequence = mbo_sequence r,
       bid_levels = get_top_levels (bid_side b),
       ask_levels = get_top_levels (ask_side b),
       mbp_symbol = mbo_symbol r,
       mbp_order_id = mbo_order_id r\<rparr>, b)"

text \<open>The states a book can be in: the result of processing any list of records from the
  freshly constructed book.\<close>

definition run :: "MBORecord list \<Rightarrow> Orderbook" where
  "run evs = foldl process_mbo_record Orderbook_init evs"

section \<open>The CSV parser (csv_parser.cpp)\<close>

text \<open>
  The field splitter of \<^verbatim>\<open>parse_mbo_line\<close>: \<^verbatim>\<open>view.find(',', start)\<close> cuts a field at
  every comma; the text after the last comma is added only if it is not empty
  (\<^verbatim>\<open>start < view.size()\<close>). The argument is the part of the line from \<^verbatim>\<open>start\<close> on.
\<close>

function tokenize :: "string \<Rightarrow> string list" where
  "tokenize view =
     (if CHR '','' \<in> set view
      then takeWhile (\<lambda>c. c \<noteq> CHR '','') view
             # tokenize (tl (dropWhile (\<lambda>c. c \<noteq> CHR '','') view))
      else if view \<noteq> [] then [view] else [])"
  by pat_completeness auto
termination
proof (relation "measure length")
  show "wf (measure length)" by simp
next
  fix view :: string
  assume "CHR '','' \<in> set view"
  then have "dropWhile (\<lambda>c. c \<noteq> CHR '','') view \<noteq> []" by simp
  then have "length (tl (dropWhile (\<lambda>c. c \<noteq> CHR '','') view))
      < length (dropWhile (\<lambda>c. c \<noteq> CHR '','') view)"
    by (cases "dropWhile (\<lambda>c. c \<noteq> CHR '','') view") simp_all
  also have "\<dots> \<le> length view" by (rule length_dropWhile_le)
  finally show "(tl (dropWhile (\<lambda>c. c \<noteq> CHR '','') view), view) \<in> measure length" by simp
qed

declare tokenize.simps [simp del]

text \<open>
  \<^verbatim>\<open>std::stoul\<close> and \<^verbatim>\<open>std::stoull\<close> in base 10, with a 64-bit \<^verbatim>\<open>unsigned long\<close>
  (LP64): leading white space is skipped, one sign is accepted, the longest run of digits
  is converted and whatever follows is ignored. No digit raises
  \<^verbatim>\<open>std::invalid_argument\<close>, a magnitude above \<open>2^64 - 1\<close> raises
  \<^verbatim>\<open>std::out_of_range\<close>; a minus sign negates the value in the unsigned type.
\<close>

datatype parse_error = InvalidArgument | OutOfRange

definition is_space :: "char \<Rightarrow> bool" where
  "is_space c = (c = CHR 0x20 \<or> (9 \<le> (of_char c :: int) \<and> (of_char c :: int) \<le> 13))"

definition is_digit :: "char \<Rightarrow> bool" where
  "is_digit c = (48 \<le> (of_char c :: int) \<and> (of_char c :: int) \<le> 57)"

definition digits_value :: "string \<Rightarrow> int" where
  "digits_value ds = foldl (\<lambda>acc c. acc * 10 + (of_char c - 48)) 0 ds"

definition stoul :: "string \<Rightarrow> parse_error + 64 word" where
  "stoul str =
     (let s1 = dropWhile is_space str;
          neg = (case s1 of c # _ \<Rightarrow> c = CHR ''-'' | [] \<Rightarrow> False);
          s2 = (case s1 of c # rest \<Rightarrow> (if c = CHR ''-'' \<or> c = CHR ''+'' then rest else s1)
                | [] \<Rightarrow> s1);
          ds = takeWhile is_digit s2
      in if ds = [] then Inl InvalidArgument
         else if digits_value ds > 18446744073709551615 then Inl OutOfRange
         else Inr (if neg then - word_of_int (digits_value ds) else word_of_int (digits_value ds)))"

definition stoull :: "string \<Rightarrow> parse_error + 64 word" where
  "stoull str = stoul str"

text \<open>The \<^verbatim>\<open>catch (const std::exception&)\<close> of \<^verbatim>\<open>parse_mbo_line\<close>: any exception of
  a conversion makes the parser return \<^verbatim>\<open>std::nullopt\<close>.\<close>

definition caught :: "parse_error + 'a \<Rightarrow> 'a option" where
  "caught r = (case r of Inl e \<Rightarrow> None | Inr v \<Rightarrow> Some v)"

text \<open>
  Two library calls are not computed here and are parameters of the parser:
  \<^verbatim>\<open>std::mktime\<close>, which depends on the time zone of the process, and the floating-point
  part of \<^verbatim>\<open>parse_price\<close>, \<^verbatim>\<open>static_cast<price_t>(std::stod(str) * PRICE_SCALE)\<close>, with
  \<open>None\<close> when \<^verbatim>\<open>std::stod\<close> throws.
\<close>

record tm =
  tm_year :: int
  tm_mon :: int
  tm_mday :: int
  tm_hour :: int
  tm_min :: int
  tm_sec :: int

record platform =
  mktime :: "tm \<Rightarrow> int"
  stod_scaled :: "string \<Rightarrow> price_t option"

text \<open>The value of a plain \<^verbatim>\<open>char\<close>, taken as signed.\<close>

definition char_val :: "char \<Rightarrow> int" where
  "char_val c = (if (of_char c :: int) \<ge> 128 then of_char c - 256 else of_char c)"

definition parse_timestamp :: "platform \<Rightarrow> string \<Rightarrow> timestamp_t" where
  "parse_timestamp pf str =
     (if length str < 23 then 0
      else
        (let d = (\<lambda>i. char_val (str ! i) - 48);
             t = \<lparr>tm_year = d 0 * 1000 + d 1 * 100 + d 2 * 10 + d 3 - 1900,
                  tm_mon = d 5 * 10 + d 6 - 1,
                  tm_mday = d 8 * 10 + d 9,
                  tm_hour = d 11 * 10 + d 12,
                  tm_min = d 14 * 10 + d 15,
                  tm_sec = d 17 * 10 + d 18\<rparr>;
             time = mktime pf t;
             nanoseconds =
               (if length str \<ge> 30
                then d 20 * 100000000 + d 21 * 10000000 + d 22 * 1000000 + d 23 * 100000 +
                     d 24 * 10000 + d 25 * 1000 + d 26 * 100 + d 27 * 10 + d 28
                else 0)
         in word_of_int (time * 1000000000 + nanoseconds)))"

definition parse_price :: "platform \<Rightarrow> string \<Rightarrow> price_t option" where
  "parse_price pf str = (if str = [] then Some 0 else stod_scaled pf str)"

text \<open>Both switches have a default branch: an unknown character is not an error.\<close>

definition parse_action :: "char \<Rightarrow> Action" where
  "parse_action c =
     (if c = CHR ''A'' then ADD
      else if c = CHR ''C'' then CANCEL
      else if c = CHR ''T'' then TRADE
      else if c = CHR ''F'' then FILL
      else if c = CHR ''R'' then REPLACE
      else ADD)"

definition parse_side :: "char \<Rightarrow> Side" where
  "parse_side c =
     (if c = CHR ''B'' then BID
      else if c = CHR ''A'' then ASK
      else if c = CHR ''N'' then NEUTRAL
      else NEUTRAL)"

text \<open>\<^verbatim>\<open>field[0]\<close> of a \<^verbatim>\<open>std::string\<close>: the first character, or the terminating zero of
  an empty string.\<close>

definition first_char :: "string \<Rightarrow> char" where
  "first_char s = (case s of [] \<Rightarrow> CHR 0x00 | c # _ \<Rightarrow> c)"

definition parse_mbo_line :: "platform \<Rightarrow> string \<Rightarrow> MBORecord option" where
  "parse_mbo_line pf line =
     (if line = [] then None
      else
        (let field_buffer = tokenize line
         in if length field_buffer \<noteq> 15 then None
            else do {
              rtype \<leftarrow> caught (stoul (field_buffer ! 2));
              publisher_id \<leftarrow> caught (stoul (field_buffer ! 3));
              instrument_id \<leftarrow> caught (stoul (field_buffer ! 4));
              price \<leftarrow> parse_price pf (field_buffer ! 7);
              sz \<leftarrow> caught (stoul (field_buffer ! 8));
              channel_id \<leftarrow> caught (stoul (field_buffer ! 9));
              order_id \<leftarrow> caught (stoull (field_buffer ! 10));
              flags \<leftarrow> caught (stoul (field_buffer ! 11));
              ts_in_delta \<leftarrow> caught (stoul (field_buffer ! 12));
              sequence \<leftarrow> caught (stoull (field_buffer ! 13));
              Some \<lparr>mbo_timestamp = \<lparr>ts_recv = parse_timestamp pf (field_buffer ! 0),
                                      ts_event = parse_timestamp pf (field_buffer ! 1)\<rparr>,
                    mbo_rtype = ucast rtype,
                    mbo_publisher_id = ucast publisher_id,
                    mbo_instrument_id = ucast instrument_id,
                    mbo_action = parse_action (first_char (field_buffer ! 5)),
                    mbo_side = parse_side (first_char (field_buffer ! 6)),
                    mbo_price = price,
                    mbo_size = ucast sz,
                    mbo_channel_id = ucast channel_id,
                    mbo_order_id = order_id,
                    mbo_flags = ucast flags,
                    mbo_ts_in_delta = ucast ts_in_delta,
                    mbo_sequence = sequence,
                    mbo_symbol = field_buffer ! 14\<rparr>
            }))"

text \<open>
  A platform for closed examples. The example lines below have timestamp fields shorter
  than 23 characters and an empty price field, so neither function is called on them.
\<close>

definition example_platform :: platform where
  "example_platform = \<lparr>mktime = (\<lambda>t. 0), stod_scaled = (\<lambda>s. None)\<rparr>"

section \<open>Structural invariant of a side book\<close>

text \<open>
  The keys of \<^verbatim>\<open>levels_\<close> are strictly ordered by the comparator (what \<^verbatim>\<open>std::map\<close>
  maintains), every stored level carries its key in its own price field, and no stored
  level has a zero aggregated size (what \<^verbatim>\<open>remove_level_if_empty\<close> maintains).
\<close>

definition keys_sorted :: "level_map \<Rightarrow> bool" where
  "keys_sorted m = sorted_wrt price_greater (map fst m)"

definition side_inv :: "OrderbookSide \<Rightarrow> bool" where
  "side_inv s = (keys_sorted (levels s) \<and>
     list_all (\<lambda>(k, lv). lvl_price lv = k \<and> total_size lv \<noteq> 0) (levels s))"

definition book_inv :: "Orderbook \<Rightarrow> bool" where
  "book_inv b = (side_inv (bid_side b) \<and> side_inv (ask_side b))"

text \<open>
  Input records as \<^verbatim>\<open>tests/test_orderbook.cpp\<close> builds them: action, side, price,
  size and order id are set, the remaining fields are zero.
\<close>

definition mk_record :: "Action \<Rightarrow> Side \<Rightarrow> price_t \<Rightarrow> size_t \<Rightarrow> order_id_t \<Rightarrow> MBORecord" where
  "mk_record a sd p sz i =
     \<lparr>mbo_timestamp = \<lparr>ts_recv = 0, ts_event = 0\<rparr>, mbo_rtype = MBO, mbo_publisher_id = 0,
      mbo_instrument_id = 0, mbo_action = a, mbo_side = sd, mbo_price = p, mbo_size = sz,
      mbo_channel_id = 0, mbo_order_id = i, mbo_flags = 0, mbo_ts_in_delta = 0,
      mbo_sequence = 0, mbo_symbol = ''TEST''\<rparr>"

text \<open>
  When an add followed by its exact cancel can be undone on a side: the order is neither
  indexed nor a member of the level at the price, and adding the size does not wrap the
  level's 32-bit aggregated size to zero (which would erase the level at the add).
\<close>

definition add_cancel_safe :: "order_id_t \<Rightarrow> price_t \<Rightarrow> size_t \<Rightarrow> OrderbookSide \<Rightarrow> bool" where
  "add_cancel_safe i p sz s =
     (order_lookup s i = None \<and>
      (case map_find p (levels s) of
         None \<Rightarrow> True
       | Some lv \<Rightarrow> orders lv i = None \<and> total_size lv + sz \<noteq> 0))"

section \<open>The ordered map\<close>

lemma price_greater_irrefl: "\<not> price_greater a a"
  by (simp add: price_greater_def)

lemma price_greater_trans: "price_greater a b \<Longrightarrow> price_greater b c \<Longrightarrow> price_greater a c"
  by (simp add: price_greater_def)

lemma price_greater_total: "a \<noteq> b \<Longrightarrow> price_greater a b \<or> price_greater b a"
proof -
  assume "a \<noteq> b"
  then have "sint a \<noteq> sint b" using word_eq_iff_signed[where ?'a = int, of a b] by simp
  then show ?thesis by (auto simp: price_greater_def)
qed

lemma price_greater_asym: "price_greater a b \<Longrightarrow> \<not> price_greater b a"
  by (simp add: price_greater_def)

lemma map_find_None_iff: "map_find k m = None \<longleftrightarrow> k \<notin> fst ` set m"
  by (induction m) (auto split: if_splits)

lemma map_find_Some_mem: "map_find k m = Some v \<Longrightarrow> (k, v) \<in> set m"
  by (induction m) (auto split: if_splits)

lemma map_find_store: "map_find k' (map_store k v m) = (if k' = k then Some v else map_find k' m)"
  by (induction m) auto

lemma keys_store: "fst ` set (map_store k v m) = insert k (fst ` set m)"
proof (rule set_eqI)
  fix k'
  have "k' \<in> fst ` set (map_store k v m) \<longleftrightarrow> map_find k' (map_store k v m) \<noteq> None"
    by (simp add: map_find_None_iff)
  also have "\<dots> \<longleftrightarrow> k' = k \<or> map_find k' m \<noteq> None"
    by (simp add: map_find_store)
  also have "\<dots> \<longleftrightarrow> k' \<in> insert k (fst ` set m)"
    by (simp add: map_find_None_iff)
  finally show "k' \<in> fst ` set (map_store k v m) \<longleftrightarrow> k' \<in> insert k (fst ` set m)" .
qed

lemma set_store_subset: "set (map_store k v m) \<subseteq> insert (k, v) (set m)"
  by (induction m) (auto split: if_splits)

lemma set_erase_subset: "set (map_erase k m) \<subseteq> set m"
  by (induction m) (auto split: if_splits)

lemma keys_sorted_Cons: "keys_sorted ((k, v) # m) \<longleftrightarrow> (\<forall>k' \<in> fst ` set m. price_greater k k') \<and> keys_sorted m"
  by (auto simp: keys_sorted_def)

lemma keys_sorted_store: "keys_sorted m \<Longrightarrow> keys_sorted (map_store k v m)"
proof (induction m)
  case Nil
  then show ?case by (simp add: keys_sorted_def)
next
  case (Cons a m)
  obtain k' v' where a: "a = (k', v')" by (cases a)
  show ?case
  proof (cases "k = k'")
    case True
    with Cons.prems a show ?thesis by (simp add: keys_sorted_Cons)
  next
    case False
    show ?thesis
    proof (cases "price_greater k k'")
      case True
      with Cons.prems a False show ?thesis
        by (auto simp: keys_sorted_Cons intro: price_greater_trans)
    next
      case ng: False
      with False have "price_greater k' k" using price_greater_total by blast
      with Cons a False ng show ?thesis
        by (auto simp: keys_sorted_Cons keys_store)
    qed
  qed
qed

lemma keys_sorted_erase: "keys_sorted m \<Longrightarrow> keys_sorted (map_erase k m)"
proof (induction m)
  case Nil
  then show ?case by simp
next
  case (Cons a m)
  obtain k' v' where a: "a = (k', v')" by (cases a)
  from Cons a show ?case
    using set_erase_subset[of k m] by (auto simp: keys_sorted_Cons)
qed

lemma map_find_erase:
  "keys_sorted m \<Longrightarrow> map_find k' (map_erase k m) = (if k' = k then None else map_find k' m)"
proof (induction m)
  case Nil
  then show ?case by simp
next
  case (Cons a m)
  obtain k0 v0 where a: "a = (k0, v0)" by (cases a)
  from Cons.prems a have nk: "k0 \<notin> fst ` set m"
    by (auto simp: keys_sorted_Cons price_greater_irrefl)
  from Cons.prems a have sm: "keys_sorted m" by (simp add: keys_sorted_Cons)
  show ?case
  proof (cases "k = k0")
    case True
    with a nk show ?thesis by (auto simp: map_find_None_iff)
  next
    case False
    with a Cons.IH[OF sm] show ?thesis by auto
  qed
qed

lemma erase_store_absent: "map_find k m = None \<Longrightarrow> map_erase k (map_store k v m) = m"
  by (induction m) (auto split: if_splits)

lemma store_same: "keys_sorted m \<Longrightarrow> map_find k m = Some v \<Longrightarrow> map_store k v m = m"
proof (induction m)
  case Nil
  then show ?case by simp
next
  case (Cons a m)
  obtain k0 v0 where a: "a = (k0, v0)" by (cases a)
  show ?case
  proof (cases "k = k0")
    case True
    with Cons.prems a show ?thesis by simp
  next
    case False
    with Cons.prems a have "map_find k m = Some v" by simp
    then have "k \<in> fst ` set m" using map_find_None_iff[of k m] by auto
    with Cons.prems a have "price_greater k0 k" by (auto simp: keys_sorted_Cons)
    then have "\<not> price_greater k k0" by (rule price_greater_asym)
    with Cons a False show ?thesis by (simp add: keys_sorted_Cons)
  qed
qed

lemma store_store: "map_store k v (map_store k w m) = map_store k v m"
  by (induction m) (auto simp: price_greater_irrefl)

lemma erase_store: "keys_sorted m \<Longrightarrow> map_erase k (map_store k v m) = map_erase k m"
proof (induction m)
  case Nil
  then show ?case by simp
next
  case (Cons a m)
  obtain k0 v0 where a: "a = (k0, v0)" by (cases a)
  show ?case
  proof (cases "k = k0")
    case True
    with a show ?thesis by simp
  next
    case False
    show ?thesis
    proof (cases "price_greater k k0")
      case True
      have "k \<notin> fst ` set m"
      proof
        assume "k \<in> fst ` set m"
        with Cons.prems a have "price_greater k0 k" by (auto simp: keys_sorted_Cons)
        with True show False using price_greater_asym by blast
      qed
      then have "map_erase k m = m" by (induction m) auto
      with a False True show ?thesis by simp
    next
      case ng: False
      with Cons a False show ?thesis by (simp add: keys_sorted_Cons)
    qed
  qed
qed

section \<open>The side operations on the level map\<close>

lemma order_lookup_update_level: "order_lookup (update_level p i sz a s) = order_lookup s"
  by (simp add: update_level_def remove_level_if_empty_def Let_def map_find_store split: option.splits)

lemma levels_update_order_lookup: "levels (update_order_lookup i p sz a s) = levels s"
  by (simp add: update_order_lookup_def split: option.splits prod.splits)

lemma side_inv_find:
  "side_inv s \<Longrightarrow> map_find p (levels s) = Some lv \<Longrightarrow> lvl_price lv = p \<and> total_size lv \<noteq> 0"
  by (auto simp: side_inv_def list_all_iff dest!: map_find_Some_mem)

lemma update_level_add_absent:
  "map_find p (levels s) = None \<Longrightarrow>
   update_level p i sz True s =
     (if sz = 0 then s
      else s\<lparr>levels := map_store p \<lparr>lvl_price = p, total_size = sz, order_count = 1,
                                      orders = [i \<mapsto> sz]\<rparr> (levels s)\<rparr>)"
  by (simp add: update_level_def remove_level_if_empty_def Let_def map_find_store
      erase_store_absent OrderbookPriceLevel_default_def)

lemma update_level_add_present:
  "keys_sorted (levels s) \<Longrightarrow> map_find p (levels s) = Some lv \<Longrightarrow>
   update_level p i sz True s =
     (if total_size lv + sz = 0 then s\<lparr>levels := map_erase p (levels s)\<rparr>
      else s\<lparr>levels := map_store p
                 (lv\<lparr>lvl_price := p, total_size := total_size lv + sz,
                     order_count := order_count lv + 1,
                     orders := (orders lv)(i \<mapsto> sz)\<rparr>) (levels s)\<rparr>)"
  by (simp add: update_level_def remove_level_if_empty_def Let_def map_find_store erase_store)

lemma update_level_remove_absent:
  "map_find p (levels s) = None \<Longrightarrow> update_level p i sz False s = s"
  by (simp add: update_level_def remove_level_if_empty_def Let_def map_find_store
      erase_store_absent OrderbookPriceLevel_default_def)

lemma update_level_remove_nonmember:
  assumes "side_inv s" "map_find p (levels s) = Some lv" "orders lv i = None"
  shows "update_level p i sz False s = s"
proof -
  from assms have lv: "lvl_price lv = p" "total_size lv \<noteq> 0"
    using side_inv_find by blast+
  then have same: "lv\<lparr>lvl_price := p\<rparr> = lv" by simp
  from assms(1) have ks: "keys_sorted (levels s)" by (simp add: side_inv_def)
  show ?thesis
    using assms(2,3) lv
    by (simp add: update_level_def remove_level_if_empty_def Let_def map_find_store same
        store_same[OF ks assms(2)])
qed

lemma update_level_remove_member:
  "keys_sorted (levels s) \<Longrightarrow> map_find p (levels s) = Some lv \<Longrightarrow> orders lv i = Some r \<Longrightarrow>
   update_level p i sz False s =
     (if total_size lv - min r sz = 0 then s\<lparr>levels := map_erase p (levels s)\<rparr>
      else s\<lparr>levels := map_store p
                 (lv\<lparr>lvl_price := p, total_size := total_size lv - min r sz,
                     orders := (orders lv)(i := None),
                     order_count := order_count lv - 1\<rparr>) (levels s)\<rparr>)"
  by (simp add: update_level_def remove_level_if_empty_def Let_def map_find_store erase_store)

lemma list_all_store:
  "list_all P m \<Longrightarrow> P (k, v) \<Longrightarrow> list_all P (map_store k v m)"
  using set_store_subset[of k v m] by (auto simp: list_all_iff)

lemma list_all_erase: "list_all P m \<Longrightarrow> list_all P (map_erase k m)"
  using set_erase_subset[of k m] by (auto simp: list_all_iff)

lemma side_inv_store:
  "side_inv s \<Longrightarrow> lvl_price lv = p \<Longrightarrow> total_size lv \<noteq> 0 \<Longrightarrow>
   side_inv (s\<lparr>levels := map_store p lv (levels s)\<rparr>)"
  by (simp add: side_inv_def keys_sorted_store list_all_store)

lemma side_inv_erase: "side_inv s \<Longrightarrow> side_inv (s\<lparr>levels := map_erase p (levels s)\<rparr>)"
  by (simp add: side_inv_def keys_sorted_erase list_all_erase)

lemma side_inv_update_level:
  assumes "side_inv s"
  shows "side_inv (update_level p i sz a s)"
proof -
  from assms have ks: "keys_sorted (levels s)" by (simp add: side_inv_def)
  show ?thesis
  proof (cases "map_find p (levels s)")
    case None
    then show ?thesis
      using assms by (cases a) (simp_all add: update_level_add_absent update_level_remove_absent side_inv_store)
  next
    case (Some lv)
    show ?thesis
    proof (cases a)
      case True
      with Some ks assms show ?thesis
        by (simp add: update_level_add_present side_inv_store side_inv_erase)
    next
      case False
      show ?thesis
      proof (cases "orders lv i")
        case None
        with False Some assms show ?thesis by (simp add: update_level_remove_nonmember)
      next
        case (Some r)
        with False \<open>map_find p (levels s) = Some lv\<close> ks assms show ?thesis
          by (simp add: update_level_remove_member side_inv_store side_inv_erase)
      qed
    qed
  qed
qed

lemma side_inv_update_order_lookup: "side_inv s \<Longrightarrow> side_inv (update_order_lookup i p sz a s)"
  by (simp add: side_inv_def levels_update_order_lookup)

lemma side_inv_add_order: "side_inv s \<Longrightarrow> side_inv (add_order i p sz s)"
  by (simp add: add_order_def side_inv_update_order_lookup side_inv_update_level)

lemma side_inv_cancel_order: "side_inv s \<Longrightarrow> side_inv (cancel_order i p sz s)"
  by (simp add: cancel_order_def side_inv_update_order_lookup side_inv_update_level)

lemma side_inv_init: "side_inv OrderbookSide_init"
  by (simp add: side_inv_def OrderbookSide_init_def keys_sorted_def)

section \<open>The projection and the reachable books\<close>

lemma fill_levels_length: "length (fill_levels i m res) = length res"
  by (induction i m res rule: fill_levels.induct) auto

lemma fill_levels_nth:
  "j < length res \<Longrightarrow> length res = MAX_DEPTH \<Longrightarrow>
   fill_levels i m res ! j =
     (if i \<le> j \<and> j < i + length m
      then \<lparr>pl_price = fst (m ! (j - i)), pl_size = total_size (snd (m ! (j - i))),
            pl_count = order_count (snd (m ! (j - i)))\<rparr>
      else res ! j)"
proof (induction i m res rule: fill_levels.induct)
  case (1 index result)
  then show ?case by auto
next
  case (2 index price level rest result)
  show ?case
  proof (cases "index \<ge> MAX_DEPTH")
    case True
    with 2 show ?thesis by simp
  next
    case False
    with 2 show ?thesis by (auto simp: nth_Cons' nth_list_update)
  qed
qed

lemma get_top_levels_length: "length (get_top_levels s) = MAX_DEPTH"
  by (simp add: get_top_levels_def fill_levels_length)

lemma get_top_levels_nth:
  "j < MAX_DEPTH \<Longrightarrow>
   get_top_levels s ! j =
     (if j < length (levels s)
      then \<lparr>pl_price = fst (levels s ! j), pl_size = total_size (snd (levels s ! j)),
            pl_count = order_count (snd (levels s ! j))\<rparr>
      else PriceLevel_default)"
  by (simp add: get_top_levels_def fill_levels_nth)

lemma handle_trade_sequence_sides:
  "mbo_action r = TRADE \<or> mbo_action r = FILL \<Longrightarrow>
   bid_side (handle_trade_sequence r b) = bid_side b \<and>
   ask_side (handle_trade_sequence r b) = ask_side b"
  by (auto simp: handle_trade_sequence_def split: option.splits)

lemma update_stats_sides:
  "bid_side (update_stats r b) = bid_side b \<and> ask_side (update_stats r b) = ask_side b \<and>
   pending_trades (update_stats r b) = pending_trades b"
  by (simp add: update_stats_def Let_def)

lemma book_inv_process: "book_inv b \<Longrightarrow> book_inv (process_mbo_record b r)"
  by (cases "mbo_action r")
     (auto simp: book_inv_def process_mbo_record_def update_stats_sides handle_add_order_def
        handle_cancel_order_def handle_trade_sequence_sides side_inv_add_order
        side_inv_cancel_order)

text \<open>Every book reached by processing records from the freshly constructed book
  satisfies the structural invariant on both sides.\<close>

lemma run_snoc: "run (evs @ [e]) = process_mbo_record (run evs) e"
  by (simp add: run_def)

lemma book_inv_run: "book_inv (run evs)"
proof (induction evs rule: rev_induct)
  case Nil
  show ?case by (simp add: run_def book_inv_def Orderbook_init_def side_inv_init)
next
  case (snoc e evs)
  then show ?case by (simp add: run_snoc book_inv_process)
qed

section \<open>An add followed by its exact cancel\<close>

lemma update_level_order_lookup_update:
  "update_level p i sz a (s\<lparr>order_lookup := f\<rparr>) = (update_level p i sz a s)\<lparr>order_lookup := f\<rparr>"
  by (simp add: update_level_def remove_level_if_empty_def Let_def map_find_store
      split: option.splits)

lemma add_cancel_compose:
  "update_level p i sz False (update_level p i sz True s) = s \<Longrightarrow> order_lookup s i = None \<Longrightarrow>
   cancel_order i p sz (add_order i p sz s) = s"
proof -
  assume rt: "update_level p i sz False (update_level p i sz True s) = s"
    and idx: "order_lookup s i = None"
  have "add_order i p sz s = (update_level p i sz True s)\<lparr>order_lookup := (order_lookup s)(i \<mapsto> (p, sz))\<rparr>"
    by (simp add: add_order_def update_order_lookup_def order_lookup_update_level)
  then have "update_level p i sz False (add_order i p sz s) = s\<lparr>order_lookup := (order_lookup s)(i \<mapsto> (p, sz))\<rparr>"
    by (simp add: update_level_order_lookup_update rt)
  then show ?thesis
    using idx by (simp add: cancel_order_def update_order_lookup_def fun_upd_idem)
qed

lemma add_then_cancel_side:
  assumes inv: "side_inv s"
    and idx: "order_lookup s i = None"
    and mem: "case map_find p (levels s) of None \<Rightarrow> True
              | Some lv \<Rightarrow> orders lv i = None \<and> total_size lv + sz \<noteq> 0"
  shows "cancel_order i p sz (add_order i p sz s) = s"
proof -
  from inv have ks: "keys_sorted (levels s)" by (simp add: side_inv_def)
  show ?thesis
  proof (cases "map_find p (levels s)")
    case None
    show ?thesis
    proof (cases "sz = 0")
      case True
      with None have "update_level p i sz False (update_level p i sz True s) = s"
        by (simp add: update_level_add_absent update_level_remove_absent)
      then show ?thesis using idx by (rule add_cancel_compose)
    next
      case False
      let ?lv = "\<lparr>lvl_price = p, total_size = sz, order_count = 1, orders = [i \<mapsto> sz]\<rparr>"
      let ?s1 = "s\<lparr>levels := map_store p ?lv (levels s)\<rparr>"
      have s1: "update_level p i sz True s = ?s1"
        using None False by (simp add: update_level_add_absent)
      have ks1: "keys_sorted (levels ?s1)" using ks by (simp add: keys_sorted_store)
      have f1: "map_find p (levels ?s1) = Some ?lv" by (simp add: map_find_store)
      have "update_level p i sz False ?s1 = s"
        using update_level_remove_member[OF ks1 f1, of i sz sz] None
        by (simp add: erase_store_absent)
      with s1 have "update_level p i sz False (update_level p i sz True s) = s" by simp
      then show ?thesis using idx by (rule add_cancel_compose)
    qed
  next
    case (Some lv)
    with mem have m: "orders lv i = None" and nz: "total_size lv + sz \<noteq> 0" by simp_all
    from inv Some have lvp: "lvl_price lv = p" "total_size lv \<noteq> 0"
      using side_inv_find by blast+
    let ?lv = "lv\<lparr>lvl_price := p, total_size := total_size lv + sz,
                  order_count := order_count lv + 1, orders := (orders lv)(i \<mapsto> sz)\<rparr>"
    let ?s1 = "s\<lparr>levels := map_store p ?lv (levels s)\<rparr>"
    have s1: "update_level p i sz True s = ?s1"
      using Some nz ks by (simp add: update_level_add_present)
    have ks1: "keys_sorted (levels ?s1)" using ks by (simp add: keys_sorted_store)
    have f1: "map_find p (levels ?s1) = Some ?lv" by (simp add: map_find_store)
    have restore: "?lv\<lparr>lvl_price := p, total_size := total_size ?lv - min sz sz,
                   orders := (orders ?lv)(i := None), order_count := order_count ?lv - 1\<rparr> = lv"
      using m lvp by (simp add: fun_upd_idem)
    have "update_level p i sz False ?s1 = s"
      using update_level_remove_member[OF ks1 f1, of i sz sz] lvp restore
      by (simp add: store_store store_same[OF ks Some])
    with s1 have "update_level p i sz False (update_level p i sz True s) = s" by simp
    then show ?thesis using idx by (rule add_cancel_compose)
  qed
qed

section \<open>Cancels\<close>

text \<open>
  Claim C4 (as amended). On a side that satisfies the structural invariant, let an order
  be indexed with resting size \<open>r\<close> at price \<open>p\<close> and be a member with the same size of
  the level at \<open>p\<close>. A cancel at that price with size hint \<open>sz\<close> takes
  \<open>d = min sz r\<close> off the level's aggregated size (the level is erased when that reaches
  zero) and off the indexed size; with \<open>sz \<ge> r\<close> it is a full cancel, after which the
  order is neither indexed nor a member of the level. A size hint of zero is not a full
  cancel: with \<open>r \<noteq> 0\<close> it has \<open>d = 0\<close> and the index entry stays as it was.
\<close>

theorem cancel_decrements_by_min:
  assumes inv: "side_inv s"
    and idx: "order_lookup s i = Some (p, r)"
    and lvl: "map_find p (levels s) = Some lv"
    and mem: "orders lv i = Some r"
  shows "order_lookup (cancel_order i p sz s) i = (if r \<le> sz then None else Some (p, r - min sz r)) \<and>
         map_option total_size (map_find p (levels (cancel_order i p sz s))) =
           (if total_size lv - min sz r = 0 then None else Some (total_size lv - min sz r)) \<and>
         (r \<le> sz \<longrightarrow> (case map_find p (levels (cancel_order i p sz s)) of
                          None \<Rightarrow> True | Some lv' \<Rightarrow> orders lv' i = None)) \<and>
         (sz = 0 \<and> r \<noteq> 0 \<longrightarrow> order_lookup (cancel_order i p sz s) i = Some (p, r))"
proof -
  from inv have ks: "keys_sorted (levels s)" by (simp add: side_inv_def)
  have lk: "order_lookup (cancel_order i p sz s) i = (if r \<le> sz then None else Some (p, r - min sz r))"
    using idx by (auto simp: cancel_order_def update_order_lookup_def order_lookup_update_level min_def)
  have lv: "levels (cancel_order i p sz s) = levels (update_level p i sz False s)"
    by (simp add: cancel_order_def levels_update_order_lookup)
  have f: "map_find p (levels (update_level p i sz False s)) =
       (if total_size lv - min r sz = 0 then None
        else Some (lv\<lparr>lvl_price := p, total_size := total_size lv - min r sz,
                     orders := (orders lv)(i := None), order_count := order_count lv - 1\<rparr>))"
    using update_level_remove_member[OF ks lvl mem, of sz]
    by (simp add: map_find_store map_find_erase ks)
  have mc: "min r sz = min sz r" by (simp add: min.commute)
  show ?thesis
    using lk by (auto simp: lv f mc)
qed

theorem cancel_decrements_by_min_witness:
  "side_inv (add_order 1 100 10 OrderbookSide_init) \<and>
   order_lookup (add_order 1 100 10 OrderbookSide_init) 1 = Some (100, 10) \<and>
   map_find 100 (levels (add_order 1 100 10 OrderbookSide_init)) =
     Some \<lparr>lvl_price = 100, total_size = 10, order_count = 1, orders = [1 \<mapsto> 10]\<rparr> \<and>
   orders \<lparr>lvl_price = 100, total_size = 10, order_count = 1, orders = [1 \<mapsto> 10]\<rparr> 1 = Some 10 \<and>
   map_option total_size (map_find 100 (levels (cancel_order 1 100 4 (add_order 1 100 10 OrderbookSide_init)))) = Some 6 \<and>
   order_lookup (cancel_order 1 100 4 (add_order 1 100 10 OrderbookSide_init)) 1 = Some (100, 6)"
proof -
  let ?s = "add_order 1 100 10 OrderbookSide_init"
  let ?lv = "\<lparr>lvl_price = 100, total_size = 10, order_count = 1, orders = [1 \<mapsto> 10]\<rparr>"
  have h1: "side_inv ?s" by code_simp
  have h2: "order_lookup ?s 1 = Some (100, 10)" by code_simp
  have h3: "map_find 100 (levels ?s) = Some ?lv"
    by (simp add: add_order_def update_order_lookup_def update_level_add_absent OrderbookSide_init_def)
  have h4: "orders ?lv 1 = Some 10" by simp
  from cancel_decrements_by_min[OF h1 h2 h3 h4, of 4] h1 h2 h3 h4 show ?thesis by simp
qed

text \<open>
  The claim as first stated treats a size hint of zero as a full cancel. After adding order
  1 with size 10 at price 100 and cancelling it with size 0 the order is still indexed with
  size 10 and the level still has aggregated size 10.
\<close>

theorem cancel_size_zero_counterexample:
  "order_lookup (cancel_order 1 100 0 (add_order 1 100 10 OrderbookSide_init)) 1 = Some (100, 10) \<and>
   pl_size (get_top_levels (cancel_order 1 100 0 (add_order 1 100 10 OrderbookSide_init)) ! 0) = 10"
  by code_simp

text \<open>
  Claim C6 (as amended). On a side that satisfies the structural invariant, a cancel whose
  order id is not in the order index and is not a member of the level at the cancel's price
  (if there is such a level) changes nothing: the side after the cancel equals the side
  before it. This covers a price with no level and a price whose level the order does not
  belong to.
\<close>

theorem cancel_unknown_order_noop:
  assumes inv: "side_inv s"
    and idx: "order_lookup s i = None"
    and mem: "case map_find p (levels s) of None \<Rightarrow> True | Some lv \<Rightarrow> orders lv i = None"
  shows "cancel_order i p sz s = s"
proof -
  have "update_level p i sz False s = s"
  proof (cases "map_find p (levels s)")
    case None
    then show ?thesis by (rule update_level_remove_absent)
  next
    case (Some lv)
    with mem have "orders lv i = None" by simp
    with inv Some show ?thesis by (rule update_level_remove_nonmember)
  qed
  with idx show ?thesis by (simp add: cancel_order_def update_order_lookup_def)
qed

theorem cancel_unknown_order_noop_witness:
  "side_inv (bid_side (run [mk_record ADD BID 100 10 2])) \<and>
   order_lookup (bid_side (run [mk_record ADD BID 100 10 2])) 1 = None \<and>
   (case map_find 100 (levels (bid_side (run [mk_record ADD BID 100 10 2]))) of
      None \<Rightarrow> True | Some lv \<Rightarrow> orders lv 1 = None) \<and>
   cancel_order 1 100 5 (bid_side (run [mk_record ADD BID 100 10 2]))
     = bid_side (run [mk_record ADD BID 100 10 2])"
proof -
  let ?s = "bid_side (run [mk_record ADD BID 100 10 2])"
  have h1: "side_inv ?s" by code_simp
  have h2: "order_lookup ?s 1 = None" by code_simp
  have h3: "case map_find 100 (levels ?s) of None \<Rightarrow> True | Some lv \<Rightarrow> orders lv 1 = None"
    by code_simp
  from cancel_unknown_order_noop[OF h1 h2 h3, of 5] h1 h2 h3 show ?thesis by blast
qed

text \<open>
  Absence from the index alone does not suffice, because \<^verbatim>\<open>update_level\<close> looks the
  order up in the level's own member map. After two adds of order 1 (at 100, then at 200)
  and a cancel at 200 the order is no longer indexed but still a member of the level at
  100; a cancel at 100 then erases that level.
\<close>

theorem cancel_unindexed_member_counterexample:
  "order_lookup (bid_side (run [mk_record ADD BID 100 10 1, mk_record ADD BID 200 5 1,
                                mk_record CANCEL BID 200 5 1])) 1 = None \<and>
   map fst (levels (bid_side (run [mk_record ADD BID 100 10 1, mk_record ADD BID 200 5 1,
                                mk_record CANCEL BID 200 5 1]))) = [100] \<and>
   map fst (levels (cancel_order 1 100 10
      (bid_side (run [mk_record ADD BID 100 10 1, mk_record ADD BID 200 5 1,
                      mk_record CANCEL BID 200 5 1])))) = []"
  by code_simp

section \<open>Adds of an order id that is already indexed\<close>

text \<open>
  Claim C5 (as amended). On a side that satisfies the structural invariant, an add whose
  order id is already in the order index overwrites the index entry with the new (price,
  size) and the member entry of the level at the new price, but it does not take the
  previously tracked order out of any level: the level at the add's price has its
  aggregated size increased by the new size and its order count by one (the level is
  created if absent, and erased if the 32-bit sum is zero), and every other level is left
  as it was.
\<close>

theorem duplicate_add_accumulates:
  assumes inv: "side_inv s"
    and idx: "order_lookup s i = Some (p0, r0)"
  shows "order_lookup (add_order i p sz s) = (order_lookup s)(i \<mapsto> (p, sz)) \<and>
         map_find p (levels (add_order i p sz s)) =
           (let lv0 = (case map_find p (levels s) of
                         Some lv \<Rightarrow> lv | None \<Rightarrow> OrderbookPriceLevel_default)
            in if total_size lv0 + sz = 0 then None
               else Some \<lparr>lvl_price = p, total_size = total_size lv0 + sz,
                          order_count = order_count lv0 + 1,
                          orders = (orders lv0)(i \<mapsto> sz)\<rparr>) \<and>
         (\<forall>p'. p' \<noteq> p \<longrightarrow> map_find p' (levels (add_order i p sz s)) = map_find p' (levels s))"
proof -
  from inv have ks: "keys_sorted (levels s)" by (simp add: side_inv_def)
  have lk: "order_lookup (add_order i p sz s) = (order_lookup s)(i \<mapsto> (p, sz))"
    by (simp add: add_order_def update_order_lookup_def order_lookup_update_level)
  have lv: "levels (add_order i p sz s) = levels (update_level p i sz True s)"
    by (simp add: add_order_def levels_update_order_lookup)
  have other: "map_find p' (levels (update_level p i sz True s)) = map_find p' (levels s)"
    if "p' \<noteq> p" for p'
    using that ks
    by (cases "map_find p (levels s)")
       (simp_all add: update_level_add_absent update_level_add_present map_find_store map_find_erase)
  have here: "map_find p (levels (update_level p i sz True s)) =
           (let lv0 = (case map_find p (levels s) of
                         Some lv \<Rightarrow> lv | None \<Rightarrow> OrderbookPriceLevel_default)
            in if total_size lv0 + sz = 0 then None
               else Some \<lparr>lvl_price = p, total_size = total_size lv0 + sz,
                          order_count = order_count lv0 + 1,
                          orders = (orders lv0)(i \<mapsto> sz)\<rparr>)"
  proof (cases "map_find p (levels s)")
    case None
    then show ?thesis
      by (simp add: update_level_add_absent map_find_store OrderbookPriceLevel_default_def)
  next
    case (Some lv)
    then show ?thesis
      using ks by (simp add: update_level_add_present map_find_store map_find_erase)
  qed
  show ?thesis using lk other here by (simp add: lv)
qed

theorem duplicate_add_accumulates_witness:
  "side_inv (add_order 1 100 10 OrderbookSide_init) \<and>
   order_lookup (add_order 1 100 10 OrderbookSide_init) 1 = Some (100, 10) \<and>
   order_lookup (add_order 1 100 5 (add_order 1 100 10 OrderbookSide_init)) 1 = Some (100, 5) \<and>
   map_option total_size
     (map_find 100 (levels (add_order 1 100 5 (add_order 1 100 10 OrderbookSide_init)))) = Some 15 \<and>
   map_option order_count
     (map_find 100 (levels (add_order 1 100 5 (add_order 1 100 10 OrderbookSide_init)))) = Some 2"
proof -
  let ?s = "add_order 1 100 10 OrderbookSide_init"
  have h1: "side_inv ?s" by code_simp
  have h2: "order_lookup ?s 1 = Some (100, 10)" by code_simp
  have h3: "map_find 100 (levels ?s) =
      Some \<lparr>lvl_price = 100, total_size = 10, order_count = 1, orders = [1 \<mapsto> 10]\<rparr>"
    by (simp add: add_order_def update_order_lookup_def update_level_add_absent OrderbookSide_init_def)
  from duplicate_add_accumulates[OF h1 h2, of 100 5] h1 h2 show ?thesis
    by (simp add: h3)
qed

text \<open>
  The claim as first stated equates the add with removing the tracked order and inserting
  the new one. Adding order 1 at price 100 with size 10 and again with size 5 gives a level
  of aggregated size 15 and order count 2; cancelling the first add in between gives size 5
  and count 1.
\<close>

theorem duplicate_add_counterexample:
  "get_top_levels (add_order 1 100 5 (add_order 1 100 10 OrderbookSide_init)) ! 0
     = \<lparr>pl_price = 100, pl_size = 15, pl_count = 2\<rparr> \<and>
   get_top_levels (add_order 1 100 5
       (cancel_order 1 100 10 (add_order 1 100 10 OrderbookSide_init))) ! 0
     = \<lparr>pl_price = 100, pl_size = 5, pl_count = 1\<rparr>"
  by code_simp

section \<open>The add and cancel pair on the book\<close>

lemma get_top_levels_init: "get_top_levels OrderbookSide_init = replicate MAX_DEPTH PriceLevel_default"
  by (simp add: get_top_levels_def OrderbookSide_init_def)

lemma add_then_cancel_init:
  "cancel_order i p sz (add_order i p sz OrderbookSide_init) = OrderbookSide_init"
  by (rule add_then_cancel_side) (simp_all add: side_inv_init, simp_all add: OrderbookSide_init_def)

lemma add_then_cancel_book:
  assumes act: "mbo_action a = ADD" "mbo_action c = CANCEL"
    and same: "mbo_side c = mbo_side a" "mbo_order_id c = mbo_order_id a"
      "mbo_price c = mbo_price a" "mbo_size c = mbo_size a"
    and bid: "mbo_side a = BID \<Longrightarrow>
        cancel_order (mbo_order_id a) (mbo_price a) (mbo_size a)
          (add_order (mbo_order_id a) (mbo_price a) (mbo_size a) (bid_side b)) = bid_side b"
    and ask: "mbo_side a = ASK \<Longrightarrow>
        cancel_order (mbo_order_id a) (mbo_price a) (mbo_size a)
          (add_order (mbo_order_id a) (mbo_price a) (mbo_size a) (ask_side b)) = ask_side b"
  shows "bid_side (process_mbo_record (process_mbo_record b a) c) = bid_side b \<and>
         ask_side (process_mbo_record (process_mbo_record b a) c) = ask_side b \<and>
         pending_trades (process_mbo_record (process_mbo_record b a) c) = pending_trades b"
  using act same bid ask
  by (cases "mbo_side a")
     (simp_all add: process_mbo_record_def update_stats_sides handle_add_order_def
        handle_cancel_order_def)

text \<open>
  Claim C7 (as amended). Let an add record and a cancel record carry the same side, order
  id, price and size. On every book that satisfies the structural invariant and in which,
  on the side the records name, the order id is neither indexed nor a member of the level
  at the price and the add does not wrap that level's 32-bit aggregated size to zero,
  processing the add and then the cancel restores both side books and the pending trades,
  so the snapshot record after the pair equals the one before the add. On the freshly
  constructed book this needs no condition: after the pair both top-10 projections consist
  of default slots only.
\<close>

theorem add_then_exact_cancel_restores:
  assumes act: "mbo_action a = ADD" "mbo_action c = CANCEL"
    and same: "mbo_side c = mbo_side a" "mbo_order_id c = mbo_order_id a"
      "mbo_price c = mbo_price a" "mbo_size c = mbo_size a"
  shows "(book_inv b \<and>
          (mbo_side a = BID \<longrightarrow>
             add_cancel_safe (mbo_order_id a) (mbo_price a) (mbo_size a) (bid_side b)) \<and>
          (mbo_side a = ASK \<longrightarrow>
             add_cancel_safe (mbo_order_id a) (mbo_price a) (mbo_size a) (ask_side b))
          \<longrightarrow> bid_side (process_mbo_record (process_mbo_record b a) c) = bid_side b \<and>
              ask_side (process_mbo_record (process_mbo_record b a) c) = ask_side b \<and>
              pending_trades (process_mbo_record (process_mbo_record b a) c) = pending_trades b \<and>
              fst (generate_mbp_record (process_mbo_record (process_mbo_record b a) c) c)
                = fst (generate_mbp_record b c)) \<and>
         bid_levels (fst (generate_mbp_record
             (process_mbo_record (process_mbo_record Orderbook_init a) c) c))
           = replicate MAX_DEPTH PriceLevel_default \<and>
         ask_levels (fst (generate_mbp_record
             (process_mbo_record (process_mbo_record Orderbook_init a) c) c))
           = replicate MAX_DEPTH PriceLevel_default"
proof -
  have general: "bid_side (process_mbo_record (process_mbo_record b a) c) = bid_side b \<and>
      ask_side (process_mbo_record (process_mbo_record b a) c) = ask_side b \<and>
      pending_trades (process_mbo_record (process_mbo_record b a) c) = pending_trades b"
    if inv: "book_inv b"
      and sb: "mbo_side a = BID \<longrightarrow>
             add_cancel_safe (mbo_order_id a) (mbo_price a) (mbo_size a) (bid_side b)"
      and sa: "mbo_side a = ASK \<longrightarrow>
             add_cancel_safe (mbo_order_id a) (mbo_price a) (mbo_size a) (ask_side b)"
  proof (rule add_then_cancel_book[OF act same])
    assume "mbo_side a = BID"
    with sb inv show "cancel_order (mbo_order_id a) (mbo_price a) (mbo_size a)
          (add_order (mbo_order_id a) (mbo_price a) (mbo_size a) (bid_side b)) = bid_side b"
      by (intro add_then_cancel_side) (simp_all add: book_inv_def add_cancel_safe_def)
  next
    assume "mbo_side a = ASK"
    with sa inv show "cancel_order (mbo_order_id a) (mbo_price a) (mbo_size a)
          (add_order (mbo_order_id a) (mbo_price a) (mbo_size a) (ask_side b)) = ask_side b"
      by (intro add_then_cancel_side) (simp_all add: book_inv_def add_cancel_safe_def)
  qed
  have empty: "bid_side (process_mbo_record (process_mbo_record Orderbook_init a) c) = OrderbookSide_init \<and>
      ask_side (process_mbo_record (process_mbo_record Orderbook_init a) c) = OrderbookSide_init"
    using add_then_cancel_book[OF act same, of Orderbook_init]
    by (simp add: add_then_cancel_init Orderbook_init_def)
  show ?thesis
    using general empty by (simp add: generate_mbp_record_def get_top_levels_init)
qed

theorem add_then_exact_cancel_restores_witness:
  "mbo_action (mk_record ADD BID 100 5 2) = ADD \<and>
   mbo_action (mk_record CANCEL BID 100 5 2) = CANCEL \<and>
   book_inv (run [mk_record ADD BID 100 10 1]) \<and>
   add_cancel_safe 2 100 5 (bid_side (run [mk_record ADD BID 100 10 1])) \<and>
   bid_side (process_mbo_record (process_mbo_record (run [mk_record ADD BID 100 10 1])
       (mk_record ADD BID 100 5 2)) (mk_record CANCEL BID 100 5 2))
     = bid_side (run [mk_record ADD BID 100 10 1]) \<and>
   fst (generate_mbp_record (process_mbo_record (process_mbo_record (run [mk_record ADD BID 100 10 1])
       (mk_record ADD BID 100 5 2)) (mk_record CANCEL BID 100 5 2)) (mk_record CANCEL BID 100 5 2))
     = fst (generate_mbp_record (run [mk_record ADD BID 100 10 1]) (mk_record CANCEL BID 100 5 2))"
proof -
  let ?a = "mk_record ADD BID 100 5 2"
  let ?c = "mk_record CANCEL BID 100 5 2"
  let ?b = "run [mk_record ADD BID 100 10 1]"
  have a1: "mbo_action ?a = ADD" and a2: "mbo_action ?c = CANCEL"
    and s1: "mbo_side ?c = mbo_side ?a" and s2: "mbo_order_id ?c = mbo_order_id ?a"
    and s3: "mbo_price ?c = mbo_price ?a" and s4: "mbo_size ?c = mbo_size ?a"
    by (simp_all add: mk_record_def)
  have f: "mbo_side ?a = BID" "mbo_order_id ?a = 2" "mbo_price ?a = 100" "mbo_size ?a = 5"
    by (simp_all add: mk_record_def)
  have inv: "book_inv ?b" by (rule book_inv_run)
  have safe: "add_cancel_safe 2 100 5 (bid_side ?b)" by code_simp
  from add_then_exact_cancel_restores[OF a1 a2 s1 s2 s3 s4, of ?b] inv safe f a1 a2
  show ?thesis by simp
qed

text \<open>
  Without the condition on the aggregated size the pair is not undone. With one bid of size
  \<open>2^32 - 1\<close> at price 100, adding order 2 with size 1 wraps the aggregated size to zero
  and \<^verbatim>\<open>remove_level_if_empty\<close> erases the level; the cancel finds no level, and the
  best bid slot, \<open>(100, 4294967295, 1)\<close> before the add, is the default slot afterwards.
\<close>

theorem add_cancel_overflow_counterexample:
  "order_lookup (bid_side (run [mk_record ADD BID 100 4294967295 1])) 2 = None \<and>
   get_top_levels (bid_side (run [mk_record ADD BID 100 4294967295 1])) ! 0
     = \<lparr>pl_price = 100, pl_size = 4294967295, pl_count = 1\<rparr> \<and>
   get_top_levels (bid_side (run [mk_record ADD BID 100 4294967295 1,
       mk_record ADD BID 100 1 2, mk_record CANCEL BID 100 1 2])) ! 0
     = \<lparr>pl_price = 0, pl_size = 0, pl_count = 0\<rparr>"
  by code_simp

section \<open>The top-10 projection\<close>

lemma get_top_levels_append:
  "get_top_levels s =
     map (\<lambda>kv. \<lparr>pl_price = fst kv, pl_size = total_size (snd kv), pl_count = order_count (snd kv)\<rparr>)
         (take MAX_DEPTH (levels s))
     @ replicate (MAX_DEPTH - length (levels s)) PriceLevel_default"
proof (rule nth_equalityI)
  show "length (get_top_levels s) =
      length (map (\<lambda>kv. \<lparr>pl_price = fst kv, pl_size = total_size (snd kv), pl_count = order_count (snd kv)\<rparr>)
         (take MAX_DEPTH (levels s)) @ replicate (MAX_DEPTH - length (levels s)) PriceLevel_default)"
    by (simp add: get_top_levels_length)
next
  fix j assume "j < length (get_top_levels s)"
  then have j: "j < MAX_DEPTH" by (simp add: get_top_levels_length)
  then show "get_top_levels s ! j =
      (map (\<lambda>kv. \<lparr>pl_price = fst kv, pl_size = total_size (snd kv), pl_count = order_count (snd kv)\<rparr>)
         (take MAX_DEPTH (levels s)) @ replicate (MAX_DEPTH - length (levels s)) PriceLevel_default) ! j"
    by (auto simp: get_top_levels_nth nth_append)
qed

lemma top_levels_descending_no_gaps_side:
  assumes inv: "side_inv s"
  shows "sorted_wrt price_greater
           (map pl_price (takeWhile (\<lambda>x. x \<noteq> PriceLevel_default) (get_top_levels s))) \<and>
         list_all (\<lambda>x. x = PriceLevel_default)
           (dropWhile (\<lambda>x. x \<noteq> PriceLevel_default) (get_top_levels s)) \<and>
         length (get_top_levels s) = MAX_DEPTH"
proof -
  let ?f = "\<lambda>kv. \<lparr>pl_price = fst kv, pl_size = total_size (snd kv), pl_count = order_count (snd kv)\<rparr>"
  let ?A = "map ?f (take MAX_DEPTH (levels s))"
  let ?R = "replicate (MAX_DEPTH - length (levels s)) PriceLevel_default"
  let ?P = "\<lambda>x. x \<noteq> PriceLevel_default"
  have occ: "?P x" if "x \<in> set ?A" for x
  proof -
    from that obtain kv where kv: "kv \<in> set (levels s)" and x: "x = ?f kv"
      by (auto dest: in_set_takeD)
    from inv kv have "total_size (snd kv) \<noteq> 0"
      by (auto simp: side_inv_def list_all_iff)
    with x show ?thesis by (auto simp: PriceLevel_default_def)
  qed
  have twR: "takeWhile ?P ?R = []" by (cases "MAX_DEPTH - length (levels s)") simp_all
  have dwR: "dropWhile ?P ?R = ?R" by (cases "MAX_DEPTH - length (levels s)") simp_all
  have "takeWhile ?P (?A @ ?R) = ?A @ takeWhile ?P ?R"
    by (rule takeWhile_append2) (rule occ)
  then have tw: "takeWhile ?P (get_top_levels s) = ?A"
    by (simp only: get_top_levels_append twR append_Nil2)
  have "dropWhile ?P (?A @ ?R) = dropWhile ?P ?R"
    by (rule dropWhile_append2) (rule occ)
  then have dw: "dropWhile ?P (get_top_levels s) = ?R"
    by (simp only: get_top_levels_append dwR)
  have pr: "map pl_price ?A = take MAX_DEPTH (map fst (levels s))"
    by (simp add: take_map comp_def)
  from inv have "sorted_wrt price_greater (map fst (levels s))"
    by (simp add: side_inv_def keys_sorted_def)
  then have "sorted_wrt price_greater (take MAX_DEPTH (map fst (levels s)))"
    by (rule sorted_wrt_take)
  with tw dw pr show ?thesis
    by (simp add: get_top_levels_length list_all_iff)
qed

text \<open>
  For every list of processed records, the projection of either side lists its occupied
  slots first, in strictly descending price order (the comparator of the one
  \<^verbatim>\<open>OrderbookSide\<close> class), and default slots after them: no occupied slot equals the
  default slot, because no stored level has aggregated size zero.
\<close>

lemma top_levels_descending_no_gaps:
  "sorted_wrt price_greater
     (map pl_price (takeWhile (\<lambda>x. x \<noteq> PriceLevel_default) (get_top_levels (bid_side (run evs))))) \<and>
   list_all (\<lambda>x. x = PriceLevel_default)
     (dropWhile (\<lambda>x. x \<noteq> PriceLevel_default) (get_top_levels (bid_side (run evs)))) \<and>
   sorted_wrt price_greater
     (map pl_price (takeWhile (\<lambda>x. x \<noteq> PriceLevel_default) (get_top_levels (ask_side (run evs))))) \<and>
   list_all (\<lambda>x. x = PriceLevel_default)
     (dropWhile (\<lambda>x. x \<noteq> PriceLevel_default) (get_top_levels (ask_side (run evs))))"
  using book_inv_run[of evs] top_levels_descending_no_gaps_side[of "bid_side (run evs)"]
    top_levels_descending_no_gaps_side[of "ask_side (run evs)"]
  by (simp add: book_inv_def)

text \<open>
  Claim C2. The claim asks for ascending prices on the ask side. The header declares
  \<^verbatim>\<open>levels_\<close> once, with \<^verbatim>\<open>std::greater\<close>, and keeps the \<^verbatim>\<open>std::less\<close> declaration
  for the ask side (ascending) only as a comment; both sides are instances of that class.
  After two ask adds at 1010000 and 1020000 (the asks of the test
  \<^verbatim>\<open>MultiplePriceLevels\<close>) the snapshot lists the ask prices as 1020000, 1010000 and
  then default slots: descending, with the worst ask first.
\<close>

theorem ask_levels_not_ascending:
  "map pl_price (take 3 (ask_levels (fst (generate_mbp_record
       (run [mk_record ADD ASK 1010000 150 4, mk_record ADD ASK 1020000 250 5])
       (mk_record ADD ASK 1020000 250 5)))))
   = [1020000, 1010000, 0]"
  by code_simp

section \<open>The trade sequence\<close>

text \<open>A cancel record never touches the pending trades, and trade and fill records never
  touch a side book: no record reaches \<^verbatim>\<open>trade_order\<close>.\<close>

lemma cancel_keeps_pending_trades:
  "mbo_action r = CANCEL \<Longrightarrow> pending_trades (process_mbo_record b r) = pending_trades b"
  by (simp add: process_mbo_record_def update_stats_sides handle_cancel_order_def)

lemma trade_fill_keep_sides:
  "mbo_action r = TRADE \<or> mbo_action r = FILL \<Longrightarrow>
   bid_side (process_mbo_record b r) = bid_side b \<and>
   ask_side (process_mbo_record b r) = ask_side b"
  by (auto simp: process_mbo_record_def update_stats_sides handle_trade_sequence_sides)

text \<open>
  Claim C1. The claim asks that a trade record followed by the cancel record of the same
  order id reduces the resting side's level by the trade size. \<^verbatim>\<open>process_mbo_record\<close>
  sends every cancel to \<^verbatim>\<open>handle_cancel_order\<close>, so the cancel branch of
  \<^verbatim>\<open>handle_trade_sequence\<close> (the only caller of \<^verbatim>\<open>trade_order\<close>) is never reached.
  On the records of the test \<^verbatim>\<open>TradeSequence\<close> without the fill (a bid of 100 at
  1000000, then trade and cancel of size 50 on the ask side for the same order id) the best
  bid is (1000000, 100, 1) before and after, and the pending trade entry, still holding
  50, is never consumed.
\<close>

theorem trade_then_cancel_leaves_resting_level:
  "get_top_levels (bid_side (run [mk_record ADD BID 1000000 100 12345])) ! 0
     = \<lparr>pl_price = 1000000, pl_size = 100, pl_count = 1\<rparr> \<and>
   get_top_levels (bid_side (run [mk_record ADD BID 1000000 100 12345,
       mk_record TRADE ASK 1000000 50 12345, mk_record CANCEL ASK 1000000 50 12345])) ! 0
     = \<lparr>pl_price = 1000000, pl_size = 100, pl_count = 1\<rparr> \<and>
   map_option remaining_size (pending_trades (run [mk_record ADD BID 1000000 100 12345,
       mk_record TRADE ASK 1000000 50 12345, mk_record CANCEL ASK 1000000 50 12345]) 12345)
     = Some 50"
  by code_simp

section \<open>Index coherence and aggregation\<close>

text \<open>
  Claim C3. The claim asks that after every processed record an indexed order is a member
  of the level at its price with the indexed size, and that a level's aggregated size and
  order count are the sum and the number of its members, both at least one. On a partial
  cancel \<^verbatim>\<open>update_order_lookup\<close> keeps the order with the reduced size, while
  \<^verbatim>\<open>update_level\<close> erases the member and decrements the count whatever the size. After
  a bid of size 10 at price 100 and a cancel of size 4 the order is indexed with size 6,
  while the level at 100 has aggregated size 6, order count 0 and no member for the order.
\<close>

theorem partial_cancel_breaks_coherence:
  "order_lookup (bid_side (run [mk_record ADD BID 100 10 1, mk_record CANCEL BID 100 4 1])) 1
     = Some (100, 6) \<and>
   map (\<lambda>(k, lv). (k, total_size lv, order_count lv, orders lv 1))
       (levels (bid_side (run [mk_record ADD BID 100 10 1, mk_record CANCEL BID 100 4 1])))
     = [(100, 6, 0, None)]"
  by code_simp

section \<open>The snapshot record\<close>

text \<open>
  Claim C9. Generating the snapshot record leaves the book as it was, and the record's
  header fields (timestamps, sequence, publisher, instrument, symbol, flags, time delta,
  action, side, price, size, order id) are those of the input record, its record type is
  MBP and its depth field is 0; the two level arrays are the top-10 projections of the
  two sides.
\<close>

theorem snapshot_header_and_frame:
  "snd (generate_mbp_record b r) = b \<and>
   mbp_timestamp (fst (generate_mbp_record b r)) = mbo_timestamp r \<and>
   mbp_sequence (fst (generate_mbp_record b r)) = mbo_sequence r \<and>
   mbp_publisher_id (fst (generate_mbp_record b r)) = mbo_publisher_id r \<and>
   mbp_instrument_id (fst (generate_mbp_record b r)) = mbo_instrument_id r \<and>
   mbp_symbol (fst (generate_mbp_record b r)) = mbo_symbol r \<and>
   mbp_flags (fst (generate_mbp_record b r)) = mbo_flags r \<and>
   mbp_ts_in_delta (fst (generate_mbp_record b r)) = mbo_ts_in_delta r \<and>
   mbp_action (fst (generate_mbp_record b r)) = mbo_action r \<and>
   mbp_side (fst (generate_mbp_record b r)) = mbo_side r \<and>
   mbp_price (fst (generate_mbp_record b r)) = mbo_price r \<and>
   mbp_size (fst (generate_mbp_record b r)) = mbo_size r \<and>
   mbp_order_id (fst (generate_mbp_record b r)) = mbo_order_id r \<and>
   mbp_rtype (fst (generate_mbp_record b r)) = MBP \<and>
   mbp_depth (fst (generate_mbp_record b r)) = 0 \<and>
   bid_levels (fst (generate_mbp_record b r)) = get_top_levels (bid_side b) \<and>
   ask_levels (fst (generate_mbp_record b r)) = get_top_levels (ask_side b)"
  by (simp add: generate_mbp_record_def)

section \<open>Records with the neutral side\<close>

text \<open>
  Claim C10. Processing a record whose side is NEUTRAL leaves both side books (level map
  and order index) unchanged, whatever its action, so in particular for an add and for a
  cancel: only records with side BID or ASK can change a side book.
\<close>

theorem neutral_side_frame:
  "mbo_side r = NEUTRAL \<Longrightarrow>
   bid_side (process_mbo_record b r) = bid_side b \<and>
   ask_side (process_mbo_record b r) = ask_side b"
  by (cases "mbo_action r")
     (simp_all add: process_mbo_record_def update_stats_sides handle_add_order_def
        handle_cancel_order_def handle_trade_sequence_sides)

theorem neutral_side_frame_witness:
  "mbo_side (mk_record ADD NEUTRAL 1000000 100 7) = NEUTRAL \<and>
   bid_side (process_mbo_record (run [mk_record ADD BID 990000 5 1]) (mk_record ADD NEUTRAL 1000000 100 7))
     = bid_side (run [mk_record ADD BID 990000 5 1]) \<and>
   ask_side (process_mbo_record (run [mk_record ADD BID 990000 5 1]) (mk_record ADD NEUTRAL 1000000 100 7))
     = ask_side (run [mk_record ADD BID 990000 5 1])"
proof -
  have h: "mbo_side (mk_record ADD NEUTRAL 1000000 100 7) = NEUTRAL"
    by (simp add: mk_record_def)
  from neutral_side_frame[OF h, of "run [mk_record ADD BID 990000 5 1]"] h
  show ?thesis by simp
qed

section \<open>Rows the parser drops\<close>

text \<open>The number of fields is the number of commas, plus one unless the line is empty or
  ends with a comma.\<close>

lemma split_at_comma:
  assumes "CHR '','' \<in> set view"
  shows "view = takeWhile (\<lambda>c. c \<noteq> CHR '','') view @ CHR '','' # tl (dropWhile (\<lambda>c. c \<noteq> CHR '','') view)"
proof -
  from assms have ne: "dropWhile (\<lambda>c. c \<noteq> CHR '','') view \<noteq> []" by simp
  then have "hd (dropWhile (\<lambda>c. c \<noteq> CHR '','') view) = CHR '',''"
    using hd_dropWhile[of "\<lambda>c. c \<noteq> CHR '',''" view] by simp
  with ne have "dropWhile (\<lambda>c. c \<noteq> CHR '','') view
      = CHR '','' # tl (dropWhile (\<lambda>c. c \<noteq> CHR '','') view)"
    by (cases "dropWhile (\<lambda>c. c \<noteq> CHR '','') view") simp_all
  then show ?thesis
    using takeWhile_dropWhile_id[of "\<lambda>c. c \<noteq> CHR '',''" view] by simp
qed

lemma count_list_append: "count_list (xs @ ys) a = count_list xs a + count_list ys a"
  by (induction xs) simp_all

lemma count_list_takeWhile_neq: "count_list (takeWhile (\<lambda>c. c \<noteq> a) xs) a = 0"
  by (induction xs) simp_all

lemma length_tokenize:
  "length (tokenize view) =
     count_list view (CHR '','') + (if view \<noteq> [] \<and> last view \<noteq> CHR '','' then 1 else 0)"
proof (induction view rule: tokenize.induct)
  case (1 view)
  show ?case
  proof (cases "CHR '','' \<in> set view")
    case True
    let ?pre = "takeWhile (\<lambda>c. c \<noteq> CHR '','') view"
    let ?rest = "tl (dropWhile (\<lambda>c. c \<noteq> CHR '','') view)"
    have v: "view = ?pre @ CHR '','' # ?rest" using True by (rule split_at_comma)
    have cnt: "count_list view (CHR '','') = Suc (count_list ?rest (CHR '',''))"
      by (subst v) (simp add: count_list_append count_list_takeWhile_neq)
    have lst: "(view \<noteq> [] \<and> last view \<noteq> CHR '','') \<longleftrightarrow> (?rest \<noteq> [] \<and> last ?rest \<noteq> CHR '','')"
      by (subst (1 2) v) simp
    have "length (tokenize view) = Suc (length (tokenize ?rest))"
      using True by (subst tokenize.simps) simp
    with 1[OF True] cnt lst show ?thesis by simp
  next
    case False
    then have "count_list view (CHR '','') = 0" by (simp add: count_list_0_iff)
    moreover have "last view \<noteq> CHR '',''" if "view \<noteq> []"
    proof
      assume "last view = CHR '',''"
      with last_in_set[OF that] have "CHR '','' \<in> set view" by simp
      with False show False by simp
    qed
    ultimately show ?thesis using False by (subst tokenize.simps) auto
  qed
qed

lemma caught_None_iff: "caught r = None \<longleftrightarrow> isl r"
  by (cases r) (simp_all add: caught_def)

lemma parse_price_None_iff: "parse_price pf f = None \<longleftrightarrow> f \<noteq> [] \<and> stod_scaled pf f = None"
  by (simp add: parse_price_def)

text \<open>
  Claim C8 (as amended). The parser returns no record exactly when the line is empty, the
  number of fields differs from 15, one of the nine integer fields (positions 2, 3, 4, 8,
  9, 10, 11, 12, 13) makes \<^verbatim>\<open>std::stoul\<close> or \<^verbatim>\<open>std::stoull\<close> throw, or the price field is
  not empty and \<^verbatim>\<open>std::stod\<close> throws on it. A row whose action or side character is
  outside \<open>A|C|T|F|R\<close> or \<open>B|A|N\<close> is not dropped: every returned record takes its action
  and side from the two switches, whose default branches give ADD and NEUTRAL.
\<close>

theorem parse_mbo_line_drops_exactly:
  "(parse_mbo_line pf line = None \<longleftrightarrow>
      line = [] \<or> length (tokenize line) \<noteq> 15 \<or>
      (\<exists>i \<in> {2, 3, 4, 8, 9, 10, 11, 12, 13}. isl (stoul (tokenize line ! i))) \<or>
      (tokenize line ! 7 \<noteq> [] \<and> stod_scaled pf (tokenize line ! 7) = None)) \<and>
   (\<forall>r. parse_mbo_line pf line = Some r \<longrightarrow>
      mbo_action r = parse_action (first_char (tokenize line ! 5)) \<and>
      mbo_side r = parse_side (first_char (tokenize line ! 6))) \<and>
   (c \<notin> {CHR ''A'', CHR ''C'', CHR ''T'', CHR ''F'', CHR ''R''} \<longrightarrow> parse_action c = ADD) \<and>
   (c \<notin> {CHR ''B'', CHR ''A'', CHR ''N''} \<longrightarrow> parse_side c = NEUTRAL)"
proof -
  have drop: "parse_mbo_line pf line = None \<longleftrightarrow>
      line = [] \<or> length (tokenize line) \<noteq> 15 \<or>
      (\<exists>i \<in> {2, 3, 4, 8, 9, 10, 11, 12, 13}. isl (stoul (tokenize line ! i))) \<or>
      (tokenize line ! 7 \<noteq> [] \<and> stod_scaled pf (tokenize line ! 7) = None)"
    by (simp add: parse_mbo_line_def Let_def bind_eq_None_conv caught_None_iff
        parse_price_None_iff stoull_def)
       blast
  have keep: "mbo_action r = parse_action (first_char (tokenize line ! 5)) \<and>
      mbo_side r = parse_side (first_char (tokenize line ! 6))"
    if "parse_mbo_line pf line = Some r" for r
    using that
    by (auto simp: parse_mbo_line_def Let_def bind_eq_Some_conv split: if_splits)
  have act: "c \<notin> {CHR ''A'', CHR ''C'', CHR ''T'', CHR ''F'', CHR ''R''} \<longrightarrow> parse_action c = ADD"
    by (simp add: parse_action_def)
  have side: "c \<notin> {CHR ''B'', CHR ''A'', CHR ''N''} \<longrightarrow> parse_side c = NEUTRAL"
    by (simp add: parse_side_def)
  from drop keep act side show ?thesis by blast
qed

theorem parse_mbo_line_drops_exactly_witness:
  "isl (stoul (tokenize ''0,0,160,2,1108,A,B,,abc,1,12345,0,0,0,BENCH'' ! 8)) \<and>
   parse_mbo_line example_platform ''0,0,160,2,1108,A,B,,abc,1,12345,0,0,0,BENCH'' = None \<and>
   length (tokenize ''1000,1000,160,2,1108,Z,B,,100,1,12345,0,0,0,BENCH'') = 15 \<and>
   map_option mbo_action
     (parse_mbo_line example_platform ''1000,1000,160,2,1108,Z,B,,100,1,12345,0,0,0,BENCH'')
     = Some ADD"
proof -
  let ?bad = "''0,0,160,2,1108,A,B,,abc,1,12345,0,0,0,BENCH''"
  let ?row = "''1000,1000,160,2,1108,Z,B,,100,1,12345,0,0,0,BENCH''"
  have h1: "isl (stoul (tokenize ?bad ! 8))" by code_simp
  from parse_mbo_line_drops_exactly[of example_platform ?bad] h1
  have dropped: "parse_mbo_line example_platform ?bad = None" by blast
  have h2: "?row \<noteq> []" "length (tokenize ?row) = 15" "tokenize ?row ! 7 = []"
    by code_simp+
  have h3: "\<forall>i \<in> {2, 3, 4, 8, 9, 10, 11, 12, 13}. \<not> isl (stoul (tokenize ?row ! i))"
    by code_simp
  have h4: "CHR ''Z'' \<notin> {CHR ''A'', CHR ''C'', CHR ''T'', CHR ''F'', CHR ''R''}" by simp
  have h5: "first_char (tokenize ?row ! 5) = CHR ''Z''" by code_simp
  from parse_mbo_line_drops_exactly[of example_platform ?row "CHR ''Z''"] h2 h3
  obtain r where r: "parse_mbo_line example_platform ?row = Some r"
    and a: "mbo_action r = parse_action (first_char (tokenize ?row ! 5))"
    by (cases "parse_mbo_line example_platform ?row") auto
  from parse_mbo_line_drops_exactly[of example_platform ?row "CHR ''Z''"] h4
  have "parse_action (CHR ''Z'') = ADD" by blast
  with r a h5 have "map_option mbo_action (parse_mbo_line example_platform ?row) = Some ADD"
    by simp
  with h1 dropped h2 show ?thesis by blast
qed

text \<open>
  The claim as first stated has an unknown action or side character drop the row. A row
  with action \<open>X\<close> and side \<open>Q\<close> is returned as an add with the neutral side.
\<close>

theorem unknown_action_side_not_dropped_counterexample:
  "parse_mbo_line example_platform ''0,0,160,2,1108,X,Q,,100,1,12345,0,0,0,BENCH'' =
     Some \<lparr>mbo_timestamp = \<lparr>ts_recv = 0, ts_event = 0\<rparr>, mbo_rtype = MBO,
           mbo_publisher_id = 2, mbo_instrument_id = 1108, mbo_action = ADD,
           mbo_side = NEUTRAL, mbo_price = 0, mbo_size = 100, mbo_channel_id = 1,
           mbo_order_id = 12345, mbo_flags = 0, mbo_ts_in_delta = 0, mbo_sequence = 0,
           mbo_symbol = ''BENCH''\<rparr>"
  by code_simp

text \<open>The result on this row does not depend on the platform.\<close>

lemma example_row_any_platform:
  "parse_mbo_line pf ''0,0,160,2,1108,X,Q,,100,1,12345,0,0,0,BENCH'' =
   parse_mbo_line example_platform ''0,0,160,2,1108,X,Q,,100,1,12345,0,0,0,BENCH''"
  by code_simp

end
